theory Spec2Isabelle
  imports Main "HOL-Library.Multiset"
begin

section \<open>Python strings\<close>

text \<open>
  A Python \<open>str\<close> is a sequence of Unicode code points, so a string is a list of
  natural numbers (its code points). ASCII literals are written through \<open>u\<close>.
\<close>

type_synonym ustring = "nat list"

definition u :: "string \<Rightarrow> ustring" where
  "u s = map of_char s"

text \<open>
  \<open>str.isspace\<close>, \<open>str.strip()\<close>, \<open>str.split()\<close> and the regular-expression class
  \<open>\s\<close> of a \<open>str\<close> pattern all use the same table of whitespace code points:
  TAB..CR, FS..US, SPACE, NEL, NBSP, OGHAM SPACE, EN QUAD..HAIR SPACE, LINE and
  PARAGRAPH SEPARATOR, NARROW NBSP, MEDIUM MATHEMATICAL SPACE, IDEOGRAPHIC SPACE.
\<close>

definition is_space :: "nat \<Rightarrow> bool" where
  "is_space c \<longleftrightarrow>
     (9 \<le> c \<and> c \<le> 13) \<or> (28 \<le> c \<and> c \<le> 32) \<or> c = 133 \<or> c = 160 \<or> c = 5760 \<or>
     (8192 \<le> c \<and> c \<le> 8202) \<or> c = 8232 \<or> c = 8233 \<or> c = 8239 \<or> c = 8287 \<or> c = 12288"

definition ascii_upper :: "nat \<Rightarrow> bool" where
  "ascii_upper c \<longleftrightarrow> 65 \<le> c \<and> c \<le> 90"

definition ascii_lower :: "nat \<Rightarrow> bool" where
  "ascii_lower c \<longleftrightarrow> 97 \<le> c \<and> c \<le> 122"

definition ascii_letter :: "nat \<Rightarrow> bool" where
  "ascii_letter c \<longleftrightarrow> ascii_upper c \<or> ascii_lower c"

definition ascii_digit :: "nat \<Rightarrow> bool" where
  "ascii_digit c \<longleftrightarrow> 48 \<le> c \<and> c \<le> 57"

definition to_ascii_upper :: "nat \<Rightarrow> nat" where
  "to_ascii_upper c = (if ascii_lower c then c - 32 else c)"

definition to_ascii_lower :: "nat \<Rightarrow> nat" where
  "to_ascii_lower c = (if ascii_upper c then c + 32 else c)"

text \<open>\<open>s.strip()\<close>: whitespace removed at both ends.\<close>

definition strip :: "ustring \<Rightarrow> ustring" where
  "strip s = rev (dropWhile is_space (rev (dropWhile is_space s)))"

text \<open>\<open>s.split()\<close>: the maximal runs of non-whitespace, in order.\<close>

fun split_acc :: "ustring \<Rightarrow> ustring \<Rightarrow> ustring list" where
  "split_acc w [] = (if w = [] then [] else [w])"
| "split_acc w (c # cs) =
     (if is_space c then (if w = [] then split_acc [] cs else w # split_acc [] cs)
      else split_acc (w @ [c]) cs)"

definition split :: "ustring \<Rightarrow> ustring list" where
  "split s = split_acc [] s"

text \<open>\<open>needle in s\<close> for strings.\<close>

fun contains :: "ustring \<Rightarrow> ustring \<Rightarrow> bool" where
  "contains needle [] = (needle = [])"
| "contains needle (c # cs) =
     (take (length needle) (c # cs) = needle \<or> contains needle cs)"

definition startswith :: "ustring \<Rightarrow> ustring \<Rightarrow> bool" where
  "startswith s p = (take (length p) s = p)"

section \<open>What lies outside the program\<close>

text \<open>
  The pipeline calls libraries whose behaviour is table- or model-driven, modules of the
  project that are not part of the file, and the network. None of their code is in
  \<open>sentiment_analysis_pipeline.py\<close>, so they are the fields of one record that
  every function takes as its first argument.
\<close>

datatype error =
  TypeError ustring | AttributeError ustring | UnicodeEncodeError | ConnectionError |
  HTTPError nat | ParserError | SummarizerError | KeyError ustring

text \<open>
  An HTTP exchange of \<open>requests\<close>: what a request carries, and what comes back (an
  exception of the transport, or a response with its status code, its body and the
  cookies it sets).
\<close>

type_synonym cookies = "(ustring \<times> ustring) list"

record request =
  req_url :: ustring
  req_headers :: "(ustring \<times> ustring) list"
  req_cookies :: cookies

datatype reply = Failed | Response nat "nat list" cookies

text \<open>
  What the run does to the outside, in order: the requests it sends, its pauses (in
  seconds) and the inputs it hands to the summarization model.
\<close>

datatype event = Get request | Sleep nat | Summarize ustring

text \<open>
  A parsed HTML document, as far as the program looks at it: the results of the XPath
  queries \<open>//p/text()\<close> and \<open>//meta[@property='og:image']/@content\<close>.
\<close>

record page =
  p_texts :: "ustring list"
  og_images :: "ustring list"

text \<open>\<open>RawHeadlineLink\<close>: one entry of a scrape backend.\<close>

record raw =
  headline :: ustring
  link :: ustring

text \<open>
  \<^item> \<open>nfkc\<close> is \<open>unicodedata.normalize("NFKC", _)\<close>;
  \<^item> \<open>uni_alnum\<close> is the alphanumeric test behind the regular-expression class \<open>\w\<close>,
    \<open>uni_lower\<close> (given the code points before, the code point and the code points
    after) and \<open>uni_title\<close> are the full case mappings behind \<open>str.lower\<close> and
    \<open>str.capitalize\<close>; on ASCII code points these three are fixed in the definitions
    below, and the record is only asked about code points from 128 on;
  \<^item> \<open>fix_text\<close> is \<open>ftfy.fix_text\<close>;
  \<^item> \<open>summarizer\<close> is the T5 pipeline with the program's decoding arguments, giving
    \<open>summary[0]["summary_text"]\<close> or raising;
  \<^item> \<open>http\<close> is the network: the reply to a request, which may depend on everything the
    run did before;
  \<^item> \<open>parse_html\<close> is \<open>lxml.html.fromstring\<close> followed by the two XPath queries;
  \<^item> \<open>analyze_keywords\<close> gives the entry \<open>final_sentiment\<close> of the classifier's answer,
    if it has one;
  \<^item> \<open>scrape_static\<close> and \<open>scrape_dynamic\<close> are the scrape backends;
  \<^item> \<open>utcnow\<close> is the clock, read as an ISO-8601 string;
  \<^item> \<open>stdout_encodable\<close> says which code points the encoding of the standard output can
    write. It is asked where a claim is about the exceptions that reach the caller of a
    function whose handler prints; the log lines of the run itself are left out.
\<close>

record env =
  nfkc :: "ustring \<Rightarrow> ustring"
  uni_alnum :: "nat \<Rightarrow> bool"
  uni_lower :: "ustring \<Rightarrow> nat \<Rightarrow> ustring \<Rightarrow> ustring"
  uni_title :: "nat \<Rightarrow> ustring"
  fix_text :: "ustring \<Rightarrow> ustring"
  summarizer :: "ustring \<Rightarrow> error + ustring"
  http :: "event list \<Rightarrow> request \<Rightarrow> reply"
  parse_html :: "nat list \<Rightarrow> error + page"
  analyze_keywords :: "ustring \<Rightarrow> ustring option"
  scrape_static :: "ustring \<Rightarrow> ustring \<Rightarrow> ustring \<Rightarrow> raw list"
  scrape_dynamic :: "ustring \<Rightarrow> ustring \<Rightarrow> ustring \<Rightarrow> raw list"
  utcnow :: "event list \<Rightarrow> ustring"
  stdout_encodable :: "nat \<Rightarrow> bool"

text \<open>
  NFKC leaves a string of ASCII code points as it is: no ASCII code point has a
  decomposition or combines with another one.
\<close>

definition nfkc_ascii_fixed :: "env \<Rightarrow> bool" where
  "nfkc_ascii_fixed E = (\<forall>s. list_all (\<lambda>c. c < 128) s \<longrightarrow> nfkc E s = s)"

text \<open>The class \<open>\w\<close> of a \<open>str\<close> pattern: alphanumeric or underscore.\<close>

definition word_char :: "env \<Rightarrow> nat \<Rightarrow> bool" where
  "word_char E c =
     (if c < 128 then ascii_letter c \<or> ascii_digit c \<or> c = 95 else uni_alnum E c)"

text \<open>
  \<open>\b\<close> between two positions: exactly one side is a word character; the start and
  the end of the string (\<open>None\<close>) count as non-word.
\<close>

definition word_boundary :: "env \<Rightarrow> nat option \<Rightarrow> nat option \<Rightarrow> bool" where
  "word_boundary E prev nxt =
     ((case prev of None \<Rightarrow> False | Some c \<Rightarrow> word_char E c) \<noteq>
      (case nxt of None \<Rightarrow> False | Some c \<Rightarrow> word_char E c))"

section \<open>The text normalizer\<close>

text \<open>
  \<open>text.encode("utf-8", "ignore").decode("utf-8")\<close>: the only code points that UTF-8
  cannot encode are the surrogates U+D800..U+DFFF, and \<open>ignore\<close> drops them.
\<close>

definition reencode_utf8 :: "ustring \<Rightarrow> ustring" where
  "reencode_utf8 s = filter (\<lambda>c. \<not> (55296 \<le> c \<and> c \<le> 57343)) s"

text \<open>
  One attempt of the pattern \<open>\b([A-Za-z]+)\s([smtdl])\b\<close> at the head of the rest of
  the string, \<open>prev\<close> being the code point before it. The greedy \<open>[A-Za-z]+\<close> takes
  the whole run of letters: a shorter run would be followed by a letter, which \<open>\s\<close>
  does not match. The result is group 1, group 2 and what follows the match.
\<close>

fun contraction_at :: "env \<Rightarrow> nat option \<Rightarrow> ustring \<Rightarrow> (ustring \<times> nat \<times> ustring) option" where
  "contraction_at E prev [] = None"
| "contraction_at E prev (c # cs) =
     (if word_boundary E prev (Some c) \<and> ascii_letter c then
        (case dropWhile ascii_letter cs of
           sp # ch # rest \<Rightarrow>
             if is_space sp \<and> ch \<in> set (u ''smtdl'') \<and>
                word_boundary E (Some ch) (case rest of [] \<Rightarrow> None | n # _ \<Rightarrow> Some n)
             then Some (c # takeWhile ascii_letter cs, ch, rest)
             else None
         | _ \<Rightarrow> None)
      else None)"

lemma contraction_at_shorter:
  "contraction_at E prev s = Some (w, ch, rest) \<Longrightarrow> length rest < length s"
proof (cases s)
  case Nil
  assume "contraction_at E prev s = Some (w, ch, rest)"
  with Nil show ?thesis by simp
next
  case (Cons c cs)
  assume a: "contraction_at E prev s = Some (w, ch, rest)"
  from a Cons obtain sp where d: "dropWhile ascii_letter cs = sp # ch # rest"
    by (auto split: if_splits list.splits)
  have "length (dropWhile ascii_letter cs) \<le> length cs"
    by (rule length_dropWhile_le)
  with d Cons show ?thesis by simp
qed

text \<open>
  \<open>re.sub(r"\b([A-Za-z]+)\s([smtdl])\b", r"\1'\2", text)\<close>: the leftmost matches, none
  overlapping an earlier one, each replaced by group 1, an apostrophe and group 2. The
  word boundaries look at the text as it was, so the code point before the scan
  position is passed along.
\<close>

function restore_from :: "env \<Rightarrow> nat option \<Rightarrow> ustring \<Rightarrow> ustring" where
  "restore_from E prev [] = []"
| "restore_from E prev (c # cs) =
     (case contraction_at E prev (c # cs) of
        Some (w, ch, rest) \<Rightarrow> w @ [39, ch] @ restore_from E (Some ch) rest
      | None \<Rightarrow> c # restore_from E (Some c) cs)"
  by pat_completeness auto
termination
  by (relation "measure (\<lambda>(E, prev, s). length s)")
     (auto simp del: contraction_at.simps dest: contraction_at_shorter)

definition restore_contractions :: "env \<Rightarrow> ustring \<Rightarrow> ustring" where
  "restore_contractions E s = restore_from E None s"

text \<open>\<open>re.sub(r"[^\x00-\x7F]+", " ", text)\<close>: every run of non-ASCII becomes one space.\<close>

function sub_non_ascii :: "ustring \<Rightarrow> ustring" where
  "sub_non_ascii [] = []"
| "sub_non_ascii (c # cs) =
     (if 128 \<le> c then 32 # sub_non_ascii (dropWhile (\<lambda>x. 128 \<le> x) cs)
      else c # sub_non_ascii cs)"
  by pat_completeness auto
termination
  by (relation "measure length") (auto simp: le_imp_less_Suc length_dropWhile_le)

text \<open>\<open>re.sub(r"\s+", " ", text)\<close>: every run of whitespace becomes one space.\<close>

function collapse_ws :: "ustring \<Rightarrow> ustring" where
  "collapse_ws [] = []"
| "collapse_ws (c # cs) =
     (if is_space c then 32 # collapse_ws (dropWhile is_space cs)
      else c # collapse_ws cs)"
  by pat_completeness auto
termination
  by (relation "measure length") (auto simp: le_imp_less_Suc length_dropWhile_le)

text \<open>Lines 28 to 35 on a string: the steps after the Unicode normalization.\<close>

definition clean_steps :: "env \<Rightarrow> ustring \<Rightarrow> ustring" where
  "clean_steps E text =
     (let text = reencode_utf8 text;
          text = restore_contractions E text;
          text = sub_non_ascii text;
          text = strip (collapse_ws text)
      in text)"












text \<open>\<open>clean_text\<close> on a string, which is what the pipeline passes.\<close>

definition clean_text_str :: "env \<Rightarrow> ustring \<Rightarrow> ustring" where
  "clean_text_str E text = clean_steps E (nfkc E text)"

text \<open>\<open>str.lower()\<close> and \<open>str.capitalize()\<close> (title case for the first code point, lower
  case for the others).\<close>

fun lower_from :: "env \<Rightarrow> ustring \<Rightarrow> ustring \<Rightarrow> ustring" where
  "lower_from E pre [] = []"
| "lower_from E pre (c # cs) =
     (if c < 128 then [to_ascii_lower c] else uni_lower E pre c cs)
     @ lower_from E (pre @ [c]) cs"

definition lower :: "env \<Rightarrow> ustring \<Rightarrow> ustring" where
  "lower E s = lower_from E [] s"

definition capitalize :: "env \<Rightarrow> ustring \<Rightarrow> ustring" where
  "capitalize E s =
     (case s of
        [] \<Rightarrow> []
      | c # cs \<Rightarrow> (if c < 128 then [to_ascii_upper c] else uni_title E c) @ lower_from E [c] cs)"

section \<open>Links and headlines\<close>

definition fix_guardian_link :: "ustring \<Rightarrow> ustring" where
  "fix_guardian_link l =
     (if \<not> startswith l (u ''http'')
      then u ''https://www.theguardian.com'' @ takeWhile (\<lambda>c. c \<noteq> 35) l
      else l)"

fun filter_headlines :: "env \<Rightarrow> ustring list \<Rightarrow> ustring list" where
  "filter_headlines E [] = []"
| "filter_headlines E (h # hs) =
     (let cleaned_headline = clean_text_str E h in
      if length (split cleaned_headline) \<le> 2 then filter_headlines E hs
      else if contains (u ''video'') (lower E cleaned_headline) \<or>
              contains (u ''advertisement'') (lower E cleaned_headline)
      then filter_headlines E hs
      else cleaned_headline # filter_headlines E hs)"

section \<open>The article fetcher\<close>

definition HEADERS :: "(ustring \<times> ustring) list" where
  "HEADERS =
     [(u ''User-Agent'', u ''Mozilla/5.0 (Windows NT 10.0; Win64; x64) AppleWebKit/537.36 (KHTML, like Gecko) Chrome/117.0.0.0 Safari/537.36''),
      (u ''Accept-Language'', u ''en-US,en;q=0.9''),
      (u ''Referer'', u ''https://www.google.com/'')]"

definition sentinel :: ustring where
  "sentinel = u ''Content not available''"

text \<open>\<open>" ".join(paragraphs)\<close>.\<close>

fun join_sp :: "ustring list \<Rightarrow> ustring" where
  "join_sp [] = []"
| "join_sp [x] = x"
| "join_sp (x # y # ys) = x @ 32 # join_sp (y # ys)"

definition extract_image :: "page \<Rightarrow> ustring option" where
  "extract_image tree = (case og_images tree of [] \<Rightarrow> None | x # _ \<Rightarrow> Some x)"

text \<open>
  Lines 97 to 107, from \<open>raise_for_status\<close> on: what the \<open>try\<close> block makes of the
  response it ends up with. \<open>raise_for_status\<close> raises for the codes 400 to 599.
\<close>

definition page_content :: "page \<Rightarrow> ustring" where
  "page_content tree =
     (let paragraphs = p_texts tree;
          content = strip (join_sp paragraphs)
      in if content \<noteq> [] then content else sentinel)"

definition extract_article :: "env \<Rightarrow> nat \<Rightarrow> nat list \<Rightarrow> error + (ustring \<times> ustring option)" where
  "extract_article E status body =
     (if 400 \<le> status \<and> status < 600 then Inl (HTTPError status)
      else case parse_html E body of
             Inl e \<Rightarrow> Inl e
           | Inr tree \<Rightarrow> Inr (page_content tree, extract_image tree))"

text \<open>
  The two requests of a fetch. The session is new, so the first request carries no
  cookie; the cookies of the first response are the session's when the request is
  repeated.
\<close>

definition first_request :: "ustring \<Rightarrow> request" where
  "first_request url = \<lparr>req_url = url, req_headers = HEADERS, req_cookies = []\<rparr>"

definition retry_request :: "ustring \<Rightarrow> cookies \<Rightarrow> request" where
  "retry_request url jar = \<lparr>req_url = url, req_headers = HEADERS, req_cookies = jar\<rparr>"

text \<open>The \<open>try\<close> block of \<open>fetch_full_article\<close>, with the events it adds to the run.\<close>

definition fetch_try ::
  "env \<Rightarrow> ustring \<Rightarrow> event list \<Rightarrow> (error + (ustring \<times> ustring option)) \<times> event list" where
  "fetch_try E url tr =
     (let tr1 = tr @ [Get (first_request url)]
      in case http E tr (first_request url) of
           Failed \<Rightarrow> (Inl ConnectionError, tr1)
         | Response status body jar \<Rightarrow>
             if status = 403 then
               (let tr2 = tr1 @ [Sleep 2];
                    tr3 = tr2 @ [Get (retry_request url jar)]
                in case http E tr2 (retry_request url jar) of
                     Failed \<Rightarrow> (Inl ConnectionError, tr3)
                   | Response status2 body2 jar2 \<Rightarrow> (extract_article E status2 body2, tr3))
             else (extract_article E status body, tr1))"

text \<open>The handler turns every exception into the sentinel and no image.\<close>

definition or_sentinel :: "error + (ustring \<times> ustring option) \<Rightarrow> ustring \<times> ustring option" where
  "or_sentinel r = (case r of Inr x \<Rightarrow> x | Inl e \<Rightarrow> (sentinel, None))"

definition fetch_full_article ::
  "env \<Rightarrow> ustring \<Rightarrow> event list \<Rightarrow> (ustring \<times> ustring option) \<times> event list" where
  "fetch_full_article E url tr =
     (let (r, tr') = fetch_try E url tr in (or_sentinel r, tr'))"

section \<open>The summary post-processor\<close>

text \<open>\<open>re.sub(r'\s([.,!?;:])', r'\1', text)\<close>: a whitespace before one of \<open>.,!?;:\<close> goes.\<close>

definition punct :: "nat \<Rightarrow> bool" where
  "punct c = (c \<in> set (u ''.,!?;:''))"

fun unspace_punct :: "ustring \<Rightarrow> ustring" where
  "unspace_punct [] = []"
| "unspace_punct [c] = [c]"
| "unspace_punct (c # p # rest) =
     (if is_space c \<and> punct p then p # unspace_punct rest
      else c # unspace_punct (p # rest))"

text \<open>
  \<open>re.sub(r'(^|[.!?]\s+)([a-z])', \<dots>upper\<dots>, text)\<close>: a lower-case ASCII letter is
  put in upper case when it stands at the very start of the text, or after one of
  \<open>.!?\<close> and a run of whitespace (the whole run: after a shorter one comes a whitespace,
  not a letter). The flag says whether the scan is at the start of the text.
\<close>

definition sentence_end :: "nat \<Rightarrow> bool" where
  "sentence_end c = (c \<in> set (u ''.!?''))"

lemma dropWhile_Cons_shorter: "dropWhile P xs = y # ys \<Longrightarrow> length ys < length xs"
proof -
  assume a: "dropWhile P xs = y # ys"
  have "length (dropWhile P xs) \<le> length xs"
    by (rule length_dropWhile_le)
  with a show ?thesis by simp
qed

function capitalize_from :: "bool \<Rightarrow> ustring \<Rightarrow> ustring" where
  "capitalize_from at_start [] = []"
| "capitalize_from at_start (c # cs) =
     (if at_start \<and> ascii_lower c then to_ascii_upper c # capitalize_from False cs
      else if sentence_end c \<and> takeWhile is_space cs \<noteq> [] then
        (case dropWhile is_space cs of
           l # rest \<Rightarrow>
             if ascii_lower l
             then c # takeWhile is_space cs @ to_ascii_upper l # capitalize_from False rest
             else c # capitalize_from False cs
         | [] \<Rightarrow> c # capitalize_from False cs)
      else c # capitalize_from False cs)"
  by pat_completeness auto
termination
  by (relation "measure (\<lambda>(b, s). length s)")
     (auto dest: dropWhile_Cons_shorter)

definition capitalize_sentences :: "ustring \<Rightarrow> ustring" where
  "capitalize_sentences s = capitalize_from True s"

text \<open>\<open>if text and text[-1] not in ".!?": text += "."\<close>\<close>

definition end_with_period :: "ustring \<Rightarrow> ustring" where
  "end_with_period text =
     (if text \<noteq> [] \<and> \<not> sentence_end (last text) then text @ u ''.'' else text)"

text \<open>
  \<open>clean_summary\<close> on a string. No step of its \<open>try\<close> block has a failing case on a
  \<open>str\<close>, and the pipeline passes one.
\<close>

definition clean_summary :: "env \<Rightarrow> ustring \<Rightarrow> ustring" where
  "clean_summary E text =
     (let text = fix_text E text;
          text = nfkc E text;
          text = collapse_ws text;
          text = unspace_punct text;
          text = capitalize_sentences text;
          text = restore_contractions E text;
          text = end_with_period text
      in strip text)"

section \<open>The summarizer\<close>

text \<open>
  \<open>generate_summary\<close> on a string: the summary, and the inputs handed to the model on
  the way (none, or one). An exception of the model, or an answer that is not of the
  shape \<open>[{"summary_text": \<dots>}]\<close>, is the \<open>Inl\<close> of \<open>summarizer\<close>; the handler then reads
  the variable \<open>text\<close>, which holds the stripped text.
\<close>

definition generate_summary :: "env \<Rightarrow> ustring \<Rightarrow> ustring \<times> ustring list" where
  "generate_summary E text =
     (let text = strip text in
      if text = [] then (u ''No content available to summarize.'', [])
      else if length (split text) < 10 then (capitalize E text, [])
      else
        (let input_text = u ''summarize: '' @ take 2048 text in
         case summarizer E input_text of
           Inr summary_text \<Rightarrow> (clean_summary E summary_text, [input_text])
         | Inl e \<Rightarrow> (clean_summary E (take 300 text @ u ''...''), [input_text])))"

section \<open>The orchestrator\<close>

record config =
  base_url :: ustring
  headline_xpath :: ustring
  link_xpath :: ustring
  dynamic :: bool

record article =
  a_headline :: ustring
  a_url :: ustring
  a_sentiment :: ustring
  a_summary :: ustring
  a_image :: "ustring option"
  a_timestamp :: ustring

text \<open>
  \<open>results\<close>: a dictionary from the sentiment label to the list of its articles, in the
  order of its keys.
\<close>

type_synonym results = "(ustring \<times> article list) list"

definition empty_results :: results where
  "empty_results = [(u ''positive'', []), (u ''neutral'', []), (u ''negative'', [])]"

text \<open>\<open>results[sentiment].append(article_data)\<close>, a \<open>KeyError\<close> when the label is no key.\<close>

fun bucket_append :: "ustring \<Rightarrow> article \<Rightarrow> results \<Rightarrow> error + results" where
  "bucket_append k a [] = Inl (KeyError k)"
| "bucket_append k a ((k', xs) # r) =
     (if k = k' then Inr ((k', xs @ [a]) # r)
      else case bucket_append k a r of
             Inl e \<Rightarrow> Inl e
           | Inr r' \<Rightarrow> Inr ((k', xs) # r'))"

text \<open>
  Lines 184 to 194: the loop that fills \<open>filtered_articles\<close>, with the set
  \<open>seen_articles\<close> as it stands when the loop reaches the entry.
\<close>

definition resolve_link :: "ustring \<Rightarrow> ustring \<Rightarrow> ustring" where
  "resolve_link site l = (if site = u ''guardian'' then fix_guardian_link l else l)"

fun dedupe_from :: "env \<Rightarrow> ustring \<Rightarrow> ustring set \<Rightarrow> raw list \<Rightarrow> raw list" where
  "dedupe_from E site seen_articles [] = []"
| "dedupe_from E site seen_articles (a # as) =
     (let cleaned_headline = clean_text_str E (headline a);
          cleaned_link = resolve_link site (link a)
      in if cleaned_link \<in> seen_articles then dedupe_from E site seen_articles as
         else \<lparr>headline = cleaned_headline, link = cleaned_link\<rparr>
                # dedupe_from E site (insert cleaned_link seen_articles) as)"

definition dedupe :: "env \<Rightarrow> ustring \<Rightarrow> raw list \<Rightarrow> raw list" where
  "dedupe E site articles = dedupe_from E site {} articles"

text \<open>The state of a run: the results so far, and what the run has done to the outside.\<close>

record run =
  results :: results
  trace :: "event list"

text \<open>
  All the articles of the results, and the articles that a part of the run has added:
  the articles of the later state without those of the earlier one.
\<close>

definition all_articles :: "results \<Rightarrow> article list" where
  "all_articles r = concat (map snd r)"

definition appended :: "run \<Rightarrow> run \<Rightarrow> article multiset" where
  "appended st st' = mset (all_articles (results st')) - mset (all_articles (results st))"

text \<open>Lines 197 to 223: the body of the loop over \<open>filtered_articles\<close>.\<close>

definition process_article :: "env \<Rightarrow> run \<Rightarrow> raw \<Rightarrow> error + run" where
  "process_article E st art =
     (let headline = clean_text_str E (headline art);
          url = link art;
          ((full_content, image_url), tr1) = fetch_full_article E url (trace st)
      in if full_content = sentinel then Inr (st\<lparr>trace := tr1\<rparr>)
         else
           (let sentiment = (case analyze_keywords E headline of
                               Some l \<Rightarrow> l | None \<Rightarrow> u ''neutral'');
                (summary, calls) = generate_summary E full_content;
                tr2 = tr1 @ map Summarize calls;
                article_data =
                  \<lparr>a_headline = headline, a_url = url, a_sentiment = sentiment,
                   a_summary = summary, a_image = image_url, a_timestamp = utcnow E tr2\<rparr>
            in case bucket_append sentiment article_data (results st) of
                 Inl e \<Rightarrow> Inl e
               | Inr r \<Rightarrow> Inr \<lparr>results = r, trace = tr2 @ [Sleep 2]\<rparr>))"

fun process_articles :: "env \<Rightarrow> run \<Rightarrow> raw list \<Rightarrow> error + run" where
  "process_articles E st [] = Inr st"
| "process_articles E st (a # as) =
     (case process_article E st a of
        Inl e \<Rightarrow> Inl e
      | Inr st' \<Rightarrow> process_articles E st' as)"

text \<open>Lines 173 to 223: one site of the configuration.\<close>

definition process_site :: "env \<Rightarrow> run \<Rightarrow> ustring \<times> config \<Rightarrow> error + run" where
  "process_site E st sc =
     (let site = fst sc; config = snd sc;
          articles =
            (if dynamic config
             then scrape_dynamic E (base_url config) (headline_xpath config) (link_xpath config)
             else scrape_static E (base_url config) (headline_xpath config) (link_xpath config))
      in process_articles E st (dedupe E site articles))"

fun process_sites :: "env \<Rightarrow> run \<Rightarrow> (ustring \<times> config) list \<Rightarrow> error + run" where
  "process_sites E st [] = Inr st"
| "process_sites E st (sc # scs) =
     (case process_site E st sc of
        Inl e \<Rightarrow> Inl e
      | Inr st' \<Rightarrow> process_sites E st' scs)"

text \<open>\<open>process_news\<close> up to the point where the results are written to the file.\<close>

definition process_news :: "env \<Rightarrow> (ustring \<times> config) list \<Rightarrow> error + run" where
  "process_news E WEBSITE_CONFIG =
     process_sites E \<lparr>results = empty_results, trace = []\<rparr> WEBSITE_CONFIG"

section \<open>A concrete outside\<close>

text \<open>
  For the evaluations at concrete inputs: a small world whose libraries behave as the
  real ones do on the texts used below. These are strings of ASCII code points, which
  \<open>unicodedata.normalize\<close> returns as they are, and, where \<open>ftfy.fix_text\<close> is asked,
  plain words (with a precomposed letter of Latin-1 at most) without mojibake, markup,
  control characters or escape sequences, which it returns as they are too; the word
  test takes the letters of Latin-1 as alphanumeric. The summarization model is out of
  order. The server answers 404 for one address, puts a cookie wall (403 until the
  cookie it sets comes back) before another, and serves a page of one paragraph for
  the others; the parser reads the body as that paragraph. The site at \<open>http://x\<close>
  lists three entries, two of them with the same link and one whose page is gone; any
  other site lists one entry, with that same link. The classifier gives no label, the
  clock stands still, and the standard output is UTF-8.
\<close>

definition demo_http :: "event list \<Rightarrow> request \<Rightarrow> reply" where
  "demo_http tr r =
     (if req_url r = u ''http://x/gone'' then Response 404 [] []
      else if req_url r = u ''http://x/wall'' \<and>
              \<not> (req_cookies r = [(u ''sid'', u ''1'')] \<and> req_headers r = HEADERS)
        then Response 403 [] [(u ''sid'', u ''1'')]
      else if req_url r = u ''http://x/odd'' then Response 200 (u ''Content not available'') []
      else if req_url r = u ''http://x/blank'' then Response 200 (u ''  '') []
      else if req_url r = u ''http://x/long''
        then Response 200 (u ''one two three four five six seven eight nine ten eleven'') []
      else Response 200 (u ''Stocks Rose sharply'') [])"

definition demo_scrape :: "ustring \<Rightarrow> ustring \<Rightarrow> ustring \<Rightarrow> raw list" where
  "demo_scrape base hx lx =
     (if base = u ''http://x'' then
        [\<lparr>headline = u ''Watch video'', link = u ''http://x/1''\<rparr>,
         \<lparr>headline = u ''Markets fell sharply today'', link = u ''http://x/1''\<rparr>,
         \<lparr>headline = u ''A story that is gone'', link = u ''http://x/gone''\<rparr>]
      else [\<lparr>headline = u ''The same story elsewhere'', link = u ''http://x/1''\<rparr>])"

definition demo_env :: env where
  "demo_env =
     \<lparr> nfkc = (\<lambda>s. s),
       uni_alnum = (\<lambda>c. 192 \<le> c \<and> c \<le> 255 \<and> c \<noteq> 215 \<and> c \<noteq> 247),
       uni_lower = (\<lambda>pre c post. [c]),
       uni_title = (\<lambda>c. [c]),
       fix_text = (\<lambda>s. s),
       summarizer = (\<lambda>s. Inl SummarizerError),
       http = demo_http,
       parse_html = (\<lambda>body. if body = [] then Inl ParserError
                             else Inr \<lparr>p_texts = [body], og_images = []\<rparr>),
       analyze_keywords = (\<lambda>h. None),
       scrape_static = demo_scrape,
       scrape_dynamic = demo_scrape,
       utcnow = (\<lambda>tr. u ''2024-01-01T00:00:00+00:00''),
       stdout_encodable = (\<lambda>c. True) \<rparr>"

definition demo_config :: config where
  "demo_config =
     \<lparr>base_url = u ''http://x'', headline_xpath = u ''//h3'', link_xpath = u ''//h3/a'',
      dynamic = False\<rparr>"

definition printable_ascii :: "nat \<Rightarrow> bool" where
  "printable_ascii c \<longleftrightarrow> 32 \<le> c \<and> c \<le> 126"

section \<open>Evaluation\<close>

lemmas char_defs =
  is_space_def ascii_letter_def ascii_upper_def ascii_lower_def ascii_digit_def
  to_ascii_upper_def to_ascii_lower_def word_char_def word_boundary_def punct_def
  sentence_end_def u_def

lemmas text_defs =
  clean_text_str_def clean_steps_def reencode_utf8_def restore_contractions_def strip_def
  split_def lower_def capitalize_def clean_summary_def capitalize_sentences_def
  end_with_period_def generate_summary_def startswith_def

lemmas fetch_defs =
  fetch_full_article_def fetch_try_def or_sentinel_def extract_article_def page_content_def
  extract_image_def first_request_def retry_request_def sentinel_def demo_http_def

lemmas run_defs =
  process_news_def process_site_def process_article_def dedupe_def empty_results_def
  demo_scrape_def demo_config_def resolve_link_def fix_guardian_link_def all_articles_def

section \<open>The shape of a normalized text\<close>

text \<open>
  The shape of a text after \<open>re.sub(r"\s+", " ", text)\<close>: every whitespace in it is
  a space that is not followed by a whitespace.
\<close>

fun ws_ok :: "ustring \<Rightarrow> bool" where
  "ws_ok [] = True"
| "ws_ok (c # s) = ((\<not> is_space c \<or> (c = 32 \<and> (s = [] \<or> \<not> is_space (hd s)))) \<and> ws_ok s)"

text \<open>The shape of a text after \<open>strip()\<close>: no whitespace at either end.\<close>

definition stripped :: "ustring \<Rightarrow> bool" where
  "stripped s = (s = [] \<or> (\<not> is_space (hd s) \<and> \<not> is_space (last s)))"

text \<open>
  What the apostrophe pattern does to one position of a text: nothing, or an
  apostrophe in the place of a whitespace.
\<close>

definition patched :: "nat \<Rightarrow> nat \<Rightarrow> bool" where
  "patched a b = (b = a \<or> (is_space a \<and> b = 39))"

lemma dropWhile_head: "dropWhile P s = [] \<or> \<not> P (hd (dropWhile P s))"
  by (metis hd_dropWhile)

lemma collapse_ws_head:
  "s \<noteq> [] \<Longrightarrow> \<not> is_space (hd s) \<Longrightarrow> collapse_ws s \<noteq> [] \<and> hd (collapse_ws s) = hd s"
  by (cases s) auto

lemma ws_ok_collapse_ws: "ws_ok (collapse_ws s)"
proof (induction s rule: collapse_ws.induct)
  case 1
  show ?case by simp
next
  case (2 c cs)
  show ?case
  proof (cases "is_space c")
    case True
    let ?d = "dropWhile is_space cs"
    from True 2 have ih: "ws_ok (collapse_ws ?d)" by simp
    have "collapse_ws ?d = [] \<or> \<not> is_space (hd (collapse_ws ?d))"
    proof (cases "?d = []")
      case True
      then have "collapse_ws ?d = []" by (simp only: collapse_ws.simps)
      then show ?thesis by blast
    next
      case False
      with dropWhile_head [of is_space cs] have "\<not> is_space (hd ?d)" by blast
      with False collapse_ws_head [of ?d] show ?thesis by metis
    qed
    with True ih show ?thesis by simp
  next
    case False
    with 2 show ?thesis by simp
  qed
qed

lemma collapse_ws_fixed: "ws_ok s \<Longrightarrow> collapse_ws s = s"
proof (induction s rule: collapse_ws.induct)
  case 1
  show ?case by simp
next
  case (2 c cs)
  show ?case
  proof (cases "is_space c")
    case True
    with 2 have d: "dropWhile is_space cs = cs"
      by (cases cs) auto
    with True 2 show ?thesis by auto
  next
    case False
    with 2 show ?thesis by simp
  qed
qed

lemma ws_ok_suffix: "ws_ok (xs @ ys) \<Longrightarrow> ws_ok ys"
  by (induction xs) auto

lemma ws_ok_prefix: "ws_ok (xs @ ys) \<Longrightarrow> ws_ok xs"
proof (induction xs)
  case Nil
  show ?case by simp
next
  case (Cons x xs)
  then show ?case by (cases xs) auto
qed

lemma rev_dropWhile_split:
  "rev (dropWhile P (rev xs)) @ rev (takeWhile P (rev xs)) = xs"
  by (metis rev_append rev_rev_ident takeWhile_dropWhile_id)

lemma strip_decomposition:
  "\<exists>a b. s = a @ strip s @ b"
proof -
  let ?d = "dropWhile is_space s"
  have 1: "s = takeWhile is_space s @ ?d" by simp
  have 2: "?d = strip s @ rev (takeWhile is_space (rev ?d))"
    unfolding strip_def by (rule rev_dropWhile_split [symmetric])
  from 1 2 have "s = takeWhile is_space s @ strip s @ rev (takeWhile is_space (rev ?d))"
    by metis
  then show ?thesis by blast
qed

lemma ws_ok_strip: "ws_ok s \<Longrightarrow> ws_ok (strip s)"
proof -
  assume a: "ws_ok s"
  from strip_decomposition [of s] obtain x y where "s = x @ strip s @ y" by blast
  with a have "ws_ok (x @ strip s @ y)" by simp
  then have "ws_ok (strip s @ y)" by (rule ws_ok_suffix)
  then show ?thesis by (rule ws_ok_prefix)
qed

lemma stripped_strip: "stripped (strip s)"
proof (cases "strip s = []")
  case True
  then show ?thesis by (simp add: stripped_def)
next
  case False
  let ?d = "dropWhile is_space s"
  let ?e = "dropWhile is_space (rev ?d)"
  have s: "strip s = rev ?e" by (simp add: strip_def)
  with False have ne: "?e \<noteq> []" by (simp del: dropWhile_eq_Nil_conv)
  with dropWhile_head [of is_space "rev ?d"] have "\<not> is_space (hd ?e)" by blast
  moreover from ne have "last (rev ?e) = hd ?e" by (metis last_rev)
  ultimately have l: "\<not> is_space (last (strip s))" by (metis s)
  have d: "?d = strip s @ rev (takeWhile is_space (rev ?d))"
    unfolding strip_def by (rule rev_dropWhile_split [symmetric])
  with False have hd: "hd ?d = hd (strip s)"
    by (metis hd_append2)
  from d False have "?d \<noteq> []" by (metis append_is_Nil_conv)
  with dropWhile_head [of is_space s] have "\<not> is_space (hd ?d)" by blast
  with hd have "\<not> is_space (hd (strip s))" by metis
  with l show ?thesis unfolding stripped_def by blast
qed

lemma dropWhile_rev_last: "s \<noteq> [] \<Longrightarrow> \<not> P (last s) \<Longrightarrow> dropWhile P (rev s) = rev s"
  by (cases s rule: rev_cases) auto

lemma strip_fixed: "stripped s \<Longrightarrow> strip s = s"
proof (cases s)
  case Nil
  then show ?thesis by (simp add: strip_def)
next
  case (Cons c cs)
  assume "stripped s"
  with Cons have h: "\<not> is_space c" and l: "\<not> is_space (last s)"
    by (auto simp: stripped_def)
  from h Cons have d: "dropWhile is_space s = s" by simp
  from Cons l have "dropWhile is_space (rev s) = rev s"
    by (intro dropWhile_rev_last) simp_all
  with d show ?thesis by (simp add: strip_def)
qed

lemma contraction_at_Some:
  assumes "contraction_at E prev s = Some (w, ch, rest)"
  shows "\<exists>sp. s = w @ sp # ch # rest \<and> is_space sp"
proof (cases s)
  case Nil
  with assms show ?thesis by simp
next
  case (Cons c cs)
  with assms obtain sp where d: "dropWhile ascii_letter cs = sp # ch # rest"
      and sp: "is_space sp" and w: "w = c # takeWhile ascii_letter cs"
    by (auto split: if_splits list.splits)
  have "cs = takeWhile ascii_letter cs @ dropWhile ascii_letter cs" by simp
  with d have "cs = takeWhile ascii_letter cs @ sp # ch # rest" by simp
  with Cons w have "s = w @ sp # ch # rest" by simp
  with sp show ?thesis by blast
qed

lemma patched_refl: "list_all2 patched w w"
  by (simp add: list_all2_refl patched_def)

lemma restore_from_patched: "list_all2 patched s (restore_from E prev s)"
proof (induction E prev s rule: restore_from.induct)
  case (1 E prev)
  show ?case by simp
next
  case (2 E prev c cs)
  show ?case
  proof (cases "contraction_at E prev (c # cs)")
    case None
    with 2 show ?thesis by (simp add: patched_def)
  next
    case (Some m)
    obtain w ch rest where m: "m = (w, ch, rest)" by (cases m)
    with Some have c: "contraction_at E prev (c # cs) = Some (w, ch, rest)" by simp
    from contraction_at_Some [OF c] obtain sp where
        s: "c # cs = w @ sp # ch # rest" and sp: "is_space sp"
      by blast
    from 2(2) [OF c refl refl] have ih: "list_all2 patched rest (restore_from E (Some ch) rest)"
      by simp
    have "list_all2 patched (w @ sp # ch # rest) (w @ 39 # ch # restore_from E (Some ch) rest)"
      using patched_refl ih sp by (intro list_all2_appendI) (simp_all add: patched_def)
    moreover have "restore_from E prev (c # cs) = w @ 39 # ch # restore_from E (Some ch) rest"
      using c by (simp del: contraction_at.simps)
    ultimately show ?thesis using s by simp
  qed
qed

lemma not_space_39: "\<not> is_space 39"
  by (simp add: is_space_def)

lemma patched_ws_ok: "list_all2 patched s z \<Longrightarrow> ws_ok s \<Longrightarrow> ws_ok z"
proof (induction rule: list_all2_induct)
  case Nil
  show ?case by simp
next
  case (Cons a s b z)
  from Cons have tl: "ws_ok z" by simp
  have "\<not> is_space b \<or> (b = 32 \<and> (z = [] \<or> \<not> is_space (hd z)))"
  proof (cases "is_space b")
    case False
    then show ?thesis by simp
  next
    case True
    with Cons(1) have ba: "b = a" by (auto simp: patched_def not_space_39)
    with True Cons(4) have a: "a = 32" and n: "s = [] \<or> \<not> is_space (hd s)" by auto
    have "z = [] \<or> \<not> is_space (hd z)"
    proof (cases s)
      case Nil
      with Cons(2) show ?thesis by simp
    next
      case (Cons x xs)
      with n have nx: "\<not> is_space x" by simp
      from Cons \<open>list_all2 patched s z\<close> obtain y ys where z: "z = y # ys" and p: "patched x y"
        by (auto simp: list_all2_Cons1)
      from p nx have "y = x" by (simp add: patched_def)
      with nx z show ?thesis by simp
    qed
    with ba a show ?thesis by simp
  qed
  with tl show ?case by simp
qed

lemma patched_not_space: "patched a b \<Longrightarrow> \<not> is_space a \<Longrightarrow> \<not> is_space b"
  by (auto simp: patched_def)

lemma patched_stripped:
  assumes "list_all2 patched s z" and "stripped s"
  shows "stripped z"
proof (cases "s = []")
  case True
  with assms(1) show ?thesis by (simp add: stripped_def)
next
  case False
  from assms(1) have len: "length s = length z" by (rule list_all2_lengthD)
  with False have nz: "z \<noteq> []" by auto
  from False assms(2) have h: "\<not> is_space (hd s)" and l: "\<not> is_space (last s)"
    by (auto simp: stripped_def)
  from False nz assms(1) have "patched (hd s) (hd z)"
    by (cases s; cases z) auto
  with h have hz: "\<not> is_space (hd z)" by (rule patched_not_space[rotated])
  from False have "length s - 1 < length s" by (cases s) simp_all
  with assms(1) have "patched (s ! (length s - 1)) (z ! (length s - 1))"
    by (rule list_all2_nthD)
  with False nz len have "patched (last s) (last z)"
    by (simp add: last_conv_nth)
  with l have "\<not> is_space (last z)" by (rule patched_not_space[rotated])
  with hz show ?thesis by (simp add: stripped_def)
qed

lemma patched_ascii:
  "list_all2 patched s z \<Longrightarrow> list_all (\<lambda>c. c < 128) s \<Longrightarrow> list_all (\<lambda>c. c < 128) z"
  by (induction rule: list_all2_induct) (auto simp: patched_def)

lemma sub_non_ascii_fixed: "list_all (\<lambda>c. c < 128) s \<Longrightarrow> sub_non_ascii s = s"
  by (induction s) auto

lemma reencode_utf8_fixed: "list_all (\<lambda>c. c < 128) s \<Longrightarrow> reencode_utf8 s = s"
  by (induction s) (auto simp: reencode_utf8_def)

section \<open>The normalizer's output\<close>

lemma list_all_dropWhile: "list_all P s \<Longrightarrow> list_all P (dropWhile Q s)"
  by (induction s) auto

lemma ascii_sub_non_ascii: "list_all (\<lambda>c. c < 128) (sub_non_ascii s)"
  by (induction s rule: sub_non_ascii.induct) auto

lemma ascii_collapse_ws:
  "list_all (\<lambda>c. c < 128) s \<Longrightarrow> list_all (\<lambda>c. c < 128) (collapse_ws s)"
  by (induction s rule: collapse_ws.induct) (auto simp: list_all_dropWhile)

lemma list_all_strip: "list_all P s \<Longrightarrow> list_all P (strip s)"
  by (simp add: strip_def list_all_dropWhile)

lemma ascii_clean_steps: "list_all (\<lambda>c. c < 128) (clean_steps E s)"
  by (simp add: clean_steps_def list_all_strip ascii_collapse_ws ascii_sub_non_ascii)

lemma ws_ok_spaces: "ws_ok s \<Longrightarrow> list_all (\<lambda>c. \<not> is_space c \<or> c = 32) s"
  by (induction s) auto

lemma ws_ok_clean_steps: "ws_ok (clean_steps E s)"
  unfolding clean_steps_def Let_def by (rule ws_ok_strip) (rule ws_ok_collapse_ws)

lemma ascii_not_space_cases:
  "c < 128 \<Longrightarrow> \<not> is_space c \<or> c = 32 \<Longrightarrow>
   printable_ascii c \<or> c \<le> 8 \<or> (14 \<le> c \<and> c \<le> 27) \<or> c = 127"
  by (auto simp: is_space_def printable_ascii_def)

lemma list_all_conj_imp:
  "list_all P s \<Longrightarrow> list_all Q s \<Longrightarrow> (\<And>c. P c \<Longrightarrow> Q c \<Longrightarrow> R c) \<Longrightarrow> list_all R s"
  by (induction s) auto

lemma single_kept:
  assumes "c < 128" and "\<not> is_space c"
  shows "clean_steps E [c] = [c]"
  using assms by (simp add: clean_steps_def reencode_utf8_def restore_contractions_def strip_def)

text \<open>
  C4, as the code has it: for every input string, every character of the output of
  \<open>clean_text\<close> is ASCII, and is either printable (U+0020 to U+007E) or one of the
  control characters that are not whitespace (U+0000 to U+0008, U+000E to U+001B,
  U+007F); so nothing outside ASCII and no whitespace control character remains. A
  control character that is not whitespace is kept: the text that consists of one such
  character is returned as it is.
\<close>

theorem clean_text_ascii:
  "list_all (\<lambda>c. c < 128 \<and> (printable_ascii c \<or> c \<le> 8 \<or> (14 \<le> c \<and> c \<le> 27) \<or> c = 127))
     (clean_text_str E s) \<and>
   (nfkc_ascii_fixed E \<and> c < 128 \<and> \<not> is_space c \<longrightarrow> clean_text_str E [c] = [c])"
proof -
  have a: "list_all (\<lambda>c. c < 128) (clean_text_str E s)"
    unfolding clean_text_str_def by (rule ascii_clean_steps)
  have w: "list_all (\<lambda>c. \<not> is_space c \<or> c = 32) (clean_text_str E s)"
    unfolding clean_text_str_def by (rule ws_ok_spaces) (rule ws_ok_clean_steps)
  from a w have 1:
    "list_all (\<lambda>c. c < 128 \<and> (printable_ascii c \<or> c \<le> 8 \<or> (14 \<le> c \<and> c \<le> 27) \<or> c = 127))
       (clean_text_str E s)"
    by (rule list_all_conj_imp) (simp add: ascii_not_space_cases)
  have 2: "clean_text_str E [c] = [c]"
    if f: "nfkc_ascii_fixed E" and c: "c < 128" and n: "\<not> is_space c"
  proof -
    from f c have "nfkc E [c] = [c]" by (simp add: nfkc_ascii_fixed_def)
    with c n show ?thesis by (simp add: clean_text_str_def single_kept)
  qed
  from 1 2 show ?thesis by blast
qed

theorem clean_text_ascii_witness:
  "nfkc_ascii_fixed demo_env \<and> clean_text_str demo_env [127] = [127] \<and>
   list_all (\<lambda>c. c < 128 \<and> (printable_ascii c \<or> c \<le> 8 \<or> (14 \<le> c \<and> c \<le> 27) \<or> c = 127))
     (clean_text_str demo_env ([233] @ u ''t'' @ [9, 10] @ u ''a''))"
proof -
  have f: "nfkc_ascii_fixed demo_env"
    by (simp add: nfkc_ascii_fixed_def demo_env_def)
  have n: "\<not> is_space 127" by (simp add: is_space_def)
  from clean_text_ascii [where s = "[233] @ u ''t'' @ [9, 10] @ u ''a''" and E = demo_env
         and c = 127] f n
  show ?thesis by simp
qed

text \<open>
  C4 as stated fails: the control character U+0001 is ASCII and no whitespace, so it
  passes every step, and the output is not printable.
\<close>

theorem clean_text_keeps_control_characters:
  "clean_text_str demo_env [1] = [1] \<and> \<not> list_all printable_ascii (clean_text_str demo_env [1])"
  by (simp add: text_defs char_defs demo_env_def printable_ascii_def)

section \<open>The normalizer's failures\<close>








section \<open>The retry of the fetcher\<close>



section \<open>The skip of the orchestrator\<close>

text \<open>Where the sentinel comes from: an exception, an empty extraction, or the page.\<close>

lemma sentinel_from_exception:
  "fst (fetch_try E url tr) = Inl e \<Longrightarrow> fst (fetch_full_article E url tr) = (sentinel, None)"
  by (cases "fetch_try E url tr") (simp add: fetch_full_article_def or_sentinel_def)

lemma sentinel_from_empty_page:
  "strip (join_sp (p_texts tree)) = [] \<Longrightarrow> page_content tree = sentinel"
  by (simp add: page_content_def)

lemma sentinel_from_page_text:
  "strip (join_sp (p_texts tree)) = sentinel \<Longrightarrow> page_content tree = sentinel"
  by (simp add: page_content_def)

lemma bucket_append_length:
  "bucket_append k a r = Inr r' \<Longrightarrow>
   length (concat (map snd r')) = Suc (length (concat (map snd r)))"
  by (induction r arbitrary: r') (auto split: if_splits sum.splits)

text \<open>
  C10: the orchestrator skips an article exactly when the content that the fetch
  returned is the sentinel string. Then the step ends without an error, and with the
  results as they were; only the events of the fetch are added. With any other
  content, a step that ends without an error has appended one record.
\<close>

theorem skip_iff_sentinel:
  "(fst (fst (fetch_full_article E (link art) (trace st))) = sentinel \<longrightarrow>
      process_article E st art =
        Inr (st\<lparr>trace := snd (fetch_full_article E (link art) (trace st))\<rparr>)) \<and>
   (fst (fst (fetch_full_article E (link art) (trace st))) \<noteq> sentinel \<longrightarrow>
      process_article E st art = Inr st' \<longrightarrow>
      length (concat (map snd (results st'))) = Suc (length (concat (map snd (results st)))))"
  by (auto simp: process_article_def Let_def split: prod.splits sum.splits
      dest: bucket_append_length)

text \<open>The page at this address is served with status 200, and its text is the sentinel.\<close>

theorem skip_iff_sentinel_witness:
  "fst (fst (fetch_full_article demo_env (u ''http://x/odd'') [])) = sentinel \<and>
   process_article demo_env \<lparr>results = empty_results, trace = []\<rparr>
       \<lparr>headline = u ''An odd page'', link = u ''http://x/odd''\<rparr>
     = Inr \<lparr>results = empty_results, trace = [Get (first_request (u ''http://x/odd''))]\<rparr>"
proof -
  have f: "fetch_full_article demo_env (u ''http://x/odd'') []
           = ((sentinel, None), [Get (first_request (u ''http://x/odd''))])"
    by (simp add: fetch_defs demo_env_def strip_def char_defs)
  from skip_iff_sentinel
         [of demo_env "\<lparr>headline = u ''An odd page'', link = u ''http://x/odd''\<rparr>"
             "\<lparr>results = empty_results, trace = []\<rparr>"]
       f
  show ?thesis by simp
qed

section \<open>The summarizer on short texts and on failures\<close>

lemma lower_from_ascii:
  "list_all (\<lambda>x. x < 128) s \<Longrightarrow> lower_from E pre s = map to_ascii_lower s"
  by (induction s arbitrary: pre) auto

text \<open>
  C3, as the code has it: for a text that is not empty after trimming and has fewer
  than 10 words, \<open>generate_summary\<close> returns \<open>capitalize\<close> of the trimmed text and hands
  nothing to the model. \<open>capitalize\<close> does not leave the rest as it is: on ASCII text
  the first letter is put in upper case and every other letter in lower case.
\<close>

theorem short_text_is_capitalized:
  assumes "strip text = c # cs" and "length (split (strip text)) < 10"
  shows "generate_summary E text = (capitalize E (c # cs), []) \<and>
         (list_all (\<lambda>x. x < 128) (c # cs) \<longrightarrow>
            capitalize E (c # cs) = to_ascii_upper c # map to_ascii_lower cs)"
  using assms by (simp add: generate_summary_def capitalize_def lower_from_ascii)

theorem short_text_is_capitalized_witness:
  "generate_summary demo_env (u '' markets fell TODAY '') = (u ''Markets fell today'', [])"
proof -
  have s: "strip (u '' markets fell TODAY '') = 109 # u ''arkets fell TODAY''"
    by (simp add: strip_def char_defs)
  have n: "length (split (strip (u '' markets fell TODAY ''))) < 10"
    by (simp add: strip_def split_def char_defs)
  have a: "list_all (\<lambda>x. x < 128) (109 # u ''arkets fell TODAY'')"
    by (simp add: u_def)
  have r: "to_ascii_upper 109 # map to_ascii_lower (u ''arkets fell TODAY'') = u ''Markets fell today''"
    by (simp add: char_defs)
  from short_text_is_capitalized [OF s n, of demo_env] a r show ?thesis by simp
qed

text \<open>
  C3 as stated fails: the text has three words and the model is not asked, but the
  capitals inside the text are gone.
\<close>

theorem short_text_rest_is_lowered:
  "fst (generate_summary demo_env (u ''Markets Fell Today'')) = u ''Markets fell today'' \<and>
   fst (generate_summary demo_env (u ''Markets Fell Today'')) \<noteq> u ''Markets Fell Today''"
  by (simp add: text_defs char_defs demo_env_def)


section \<open>The headline filter\<close>

text \<open>What \<open>filter_headlines\<close> keeps, as one filter over the normalized headlines.\<close>

lemma filter_headlines_filter:
  "filter_headlines E hs =
     filter (\<lambda>h. 2 < length (split h) \<and> \<not> contains (u ''video'') (lower E h) \<and>
                  \<not> contains (u ''advertisement'') (lower E h))
       (map (clean_text_str E) hs)"
  by (induction hs) (auto simp: Let_def)

text \<open>
  C1 at a batch of the orchestrator: \<open>filter_headlines\<close> drops the headline
  \<open>Watch video\<close>, but \<open>process_news\<close> does not call it. The entry is fetched, and its
  record is the one that the run emits.
\<close>

theorem headline_filter_not_applied:
  "filter_headlines demo_env [u ''Watch video''] = [] \<and>
   (case process_news demo_env [(u ''x'', demo_config)] of
      Inl e \<Rightarrow> False
    | Inr st \<Rightarrow>
        map a_headline (concat (map snd (results st))) = [u ''Watch video''] \<and>
        Get (first_request (u ''http://x/1'')) \<in> set (trace st))"
  by (simp add: run_defs fetch_defs text_defs char_defs demo_env_def Let_def)

section \<open>Deduplication within a batch\<close>

lemma dedupe_from_links:
  "distinct (map link (dedupe_from E site seen as)) \<and>
   set (map link (dedupe_from E site seen as)) = (resolve_link site ` link ` set as) - seen"
  by (induction as arbitrary: seen) (auto simp: Let_def)

lemma bucket_append_mset:
  "bucket_append k a r = Inr r' \<Longrightarrow>
   mset (all_articles r') = add_mset a (mset (all_articles r))"
  by (induction r arbitrary: r') (auto simp: all_articles_def split: if_splits sum.splits)

lemma process_article_mset:
  assumes "process_article E st a = Inr st'"
  shows "\<exists>new. mset (all_articles (results st')) = mset (all_articles (results st)) + new \<and>
               image_mset a_url new \<subseteq># {#link a#}"
proof (cases "fst (fst (fetch_full_article E (link a) (trace st))) = sentinel")
  case True
  with assms have "results st' = results st"
    by (auto simp: process_article_def Let_def split: prod.splits)
  then have "mset (all_articles (results st')) = mset (all_articles (results st)) + {#}
             \<and> image_mset a_url {#} \<subseteq># {#link a#}"
    by simp
  then show ?thesis by blast
next
  case False
  with assms have "\<exists>k x. bucket_append k x (results st) = Inr (results st') \<and> a_url x = link a"
    by (fastforce simp: process_article_def Let_def split: prod.splits sum.splits)
  then obtain k x where r: "bucket_append k x (results st) = Inr (results st')"
      and x: "a_url x = link a"
    by blast
  from bucket_append_mset [OF r]
  have "mset (all_articles (results st')) = mset (all_articles (results st)) + {#x#}
        \<and> image_mset a_url {#x#} \<subseteq># {#link a#}"
    using x by simp
  then show ?thesis by blast
qed

lemma process_articles_mset:
  "process_articles E st as = Inr st' \<Longrightarrow>
   \<exists>new. mset (all_articles (results st')) = mset (all_articles (results st)) + new \<and>
         image_mset a_url new \<subseteq># mset (map link as)"
proof (induction as arbitrary: st)
  case Nil
  then show ?case by simp
next
  case (Cons a as)
  from Cons.prems obtain st1 where s1: "process_article E st a = Inr st1"
      and s2: "process_articles E st1 as = Inr st'"
    by (auto split: sum.splits)
  from process_article_mset [OF s1] obtain n1 where
      n1: "mset (all_articles (results st1)) = mset (all_articles (results st)) + n1"
      and u1: "image_mset a_url n1 \<subseteq># {#link a#}"
    by blast
  from Cons.IH [OF s2] obtain n2 where
      n2: "mset (all_articles (results st')) = mset (all_articles (results st1)) + n2"
      and u2: "image_mset a_url n2 \<subseteq># mset (map link as)"
    by blast
  have "mset (all_articles (results st')) = mset (all_articles (results st)) + (n1 + n2)"
    using n1 n2 by (simp add: add.assoc)
  moreover have "image_mset a_url (n1 + n2) \<subseteq># mset (map link (a # as))"
    using subset_mset.add_mono [OF u1 u2] by simp
  ultimately show ?case by blast
qed

lemma appended_urls:
  assumes "process_articles E st as = Inr st'"
  shows "image_mset a_url (appended st st') \<subseteq># mset (map link as)"
proof -
  from process_articles_mset [OF assms] obtain new where
      n: "mset (all_articles (results st')) = mset (all_articles (results st)) + new"
      and u: "image_mset a_url new \<subseteq># mset (map link as)"
    by blast
  from n have "appended st st' = new"
    by (simp add: appended_def)
  with u show ?thesis by simp
qed

text \<open>Two sites that list the same address: both records are emitted.\<close>

lemma two_sites_same_url:
  "(case process_news demo_env
           [(u ''x'', demo_config), (u ''y'', demo_config\<lparr>base_url := u ''http://y''\<rparr>)] of
      Inl e \<Rightarrow> False
    | Inr st \<Rightarrow> map a_url (all_articles (results st)) = [u ''http://x/1'', u ''http://x/1''])"
  by (simp add: run_defs fetch_defs text_defs char_defs demo_env_def Let_def)

lemma distinct_count_le_1: "distinct xs \<Longrightarrow> count (mset xs) x \<le> 1"
  by (simp add: distinct_count_atmost_1)

text \<open>
  C5: in one batch, every resolved address of the batch is the link of exactly one
  entry that survives the deduplication (the links of the survivors are distinct, and
  they are the resolved links of the batch), and no address occurs twice among the
  records that the batch adds to the results. Across sites nothing of the kind holds:
  two sites of one run that list the same address both get their record.
\<close>

theorem dedup_per_batch:
  "distinct (map link (dedupe E site articles)) \<and>
   set (map link (dedupe E site articles)) = resolve_link site ` link ` set articles \<and>
   (process_site E st sc = Inr st' \<longrightarrow>
      (\<forall>url. count (image_mset a_url (appended st st')) url \<le> 1)) \<and>
   (case process_news demo_env
           [(u ''x'', demo_config), (u ''y'', demo_config\<lparr>base_url := u ''http://y''\<rparr>)] of
      Inl e \<Rightarrow> False
    | Inr st \<Rightarrow> map a_url (all_articles (results st)) = [u ''http://x/1'', u ''http://x/1''])"
proof -
  have d: "distinct (map link (dedupe E s as))" for s as
    using dedupe_from_links [of E s "{}" as] by (simp add: dedupe_def)
  have "count (image_mset a_url (appended st st')) url \<le> 1"
    if p: "process_site E st sc = Inr st'" for url
  proof -
    from p obtain as where a: "process_articles E st (dedupe E (fst sc) as) = Inr st'"
      by (auto simp: process_site_def Let_def)
    have "count (image_mset a_url (appended st st')) url
          \<le> count (mset (map link (dedupe E (fst sc) as))) url"
      using appended_urls [OF a] by (rule mset_subset_eq_count)
    also have "\<dots> \<le> 1"
      using d [of "fst sc" as] by (rule distinct_count_le_1)
    finally show ?thesis .
  qed
  moreover have "set (map link (dedupe E site articles)) = resolve_link site ` link ` set articles"
    using dedupe_from_links [of E site "{}" articles] by (simp add: dedupe_def)
  ultimately show ?thesis using d two_sites_same_url by blast
qed

theorem dedup_per_batch_witness:
  "map link (dedupe demo_env (u ''x'') (demo_scrape (u ''http://x'') [] []))
     = [u ''http://x/1'', u ''http://x/gone''] \<and>
   process_site demo_env \<lparr>results = empty_results, trace = []\<rparr> (u ''x'', demo_config)
     = Inr \<lparr>results =
              [(u ''positive'', []),
               (u ''neutral'',
                [\<lparr>a_headline = u ''Watch video'', a_url = u ''http://x/1'',
                  a_sentiment = u ''neutral'', a_summary = u ''Stocks rose sharply'',
                  a_image = None, a_timestamp = u ''2024-01-01T00:00:00+00:00''\<rparr>]),
               (u ''negative'', [])],
            trace = [Get (first_request (u ''http://x/1'')), Sleep 2,
                     Get (first_request (u ''http://x/gone''))]\<rparr> \<and>
   count (image_mset a_url
            (appended \<lparr>results = empty_results, trace = []\<rparr>
               \<lparr>results =
                  [(u ''positive'', []),
                   (u ''neutral'',
                    [\<lparr>a_headline = u ''Watch video'', a_url = u ''http://x/1'',
                      a_sentiment = u ''neutral'', a_summary = u ''Stocks rose sharply'',
                      a_image = None, a_timestamp = u ''2024-01-01T00:00:00+00:00''\<rparr>]),
                   (u ''negative'', [])],
                trace = [Get (first_request (u ''http://x/1'')), Sleep 2,
                         Get (first_request (u ''http://x/gone''))]\<rparr>))
     (u ''http://x/1'') \<le> 1"
proof -
  have l: "map link (dedupe demo_env (u ''x'') (demo_scrape (u ''http://x'') [] []))
           = [u ''http://x/1'', u ''http://x/gone'']"
    by (simp add: run_defs u_def)
  have p: "process_site demo_env \<lparr>results = empty_results, trace = []\<rparr> (u ''x'', demo_config)
     = Inr \<lparr>results =
              [(u ''positive'', []),
               (u ''neutral'',
                [\<lparr>a_headline = u ''Watch video'', a_url = u ''http://x/1'',
                  a_sentiment = u ''neutral'', a_summary = u ''Stocks rose sharply'',
                  a_image = None, a_timestamp = u ''2024-01-01T00:00:00+00:00''\<rparr>]),
               (u ''negative'', [])],
            trace = [Get (first_request (u ''http://x/1'')), Sleep 2,
                     Get (first_request (u ''http://x/gone''))]\<rparr>"
    by (simp add: run_defs fetch_defs text_defs char_defs demo_env_def Let_def)
  from dedup_per_batch [of demo_env "u ''x''" "demo_scrape (u ''http://x'') [] []"
         "\<lparr>results = empty_results, trace = []\<rparr>" "(u ''x'', demo_config)"] p l
  show ?thesis by blast
qed

section \<open>The ends of a post-processed summary\<close>

lemma collapse_ws_Nil_iff: "collapse_ws s = [] \<longleftrightarrow> s = []"
  by (cases s) auto

lemma unspace_punct_Nil_iff: "unspace_punct s = [] \<longleftrightarrow> s = []"
  by (cases s rule: unspace_punct.cases) auto

lemma capitalize_from_Nil_iff: "capitalize_from b s = [] \<longleftrightarrow> s = []"
  by (cases s) (auto split: list.splits)

lemma restore_from_Cons: "\<exists>r. restore_from E prev (c # cs) = c # r"
  by (auto split: option.splits if_splits list.splits)

lemma restore_from_Nil_iff: "restore_from E prev s = [] \<longleftrightarrow> s = []"
proof (cases s)
  case Nil
  then show ?thesis by simp
next
  case (Cons c cs)
  with restore_from_Cons [of E prev c cs] show ?thesis by auto
qed

lemma sentence_end_not_space: "sentence_end c \<Longrightarrow> \<not> is_space c"
  by (auto simp: sentence_end_def is_space_def u_def)

lemma ascii_letter_not_space: "ascii_letter c \<Longrightarrow> \<not> is_space c"
  by (auto simp: char_defs)

lemma strip_keeps_last:
  assumes "s \<noteq> []" and "\<not> is_space (last s)"
  shows "strip s \<noteq> [] \<and> last (strip s) = last s"
proof -
  let ?d = "dropWhile is_space s"
  from assms have m: "last s \<in> set s" by simp
  with assms(2) have d: "?d \<noteq> []"
    by (auto simp: dropWhile_eq_Nil_conv)
  have "s = takeWhile is_space s @ ?d" by simp
  with d have l: "last ?d = last s"
    by (metis last_appendR)
  from d obtain xs where x: "?d = xs @ [last ?d]"
    by (metis append_butlast_last_id)
  then have "rev ?d = last ?d # rev xs"
    by (metis rev.simps(2) rev_append rev_rev_ident rev_singleton_conv append_Nil)
  with l assms(2) have "dropWhile is_space (rev ?d) = rev ?d"
    by simp
  then have "strip s = ?d"
    by (simp add: strip_def)
  with d l show ?thesis by simp
qed

lemma strip_keeps_head:
  assumes "\<not> is_space c"
  shows "\<exists>r. strip (c # cs) = c # r"
proof -
  have "dropWhile is_space (rev cs @ [c]) = dropWhile is_space (rev cs) @ [c]"
    using assms by (simp add: dropWhile_append3)
  then have "strip (c # cs) = c # rev (dropWhile is_space (rev cs))"
    using assms by (simp add: strip_def)
  then show ?thesis by blast
qed

lemma unspace_punct_Cons: "\<not> is_space c \<Longrightarrow> \<exists>r. unspace_punct (c # cs) = c # r"
  by (cases cs) auto

lemma capitalize_from_letter:
  "ascii_letter c \<Longrightarrow> \<exists>r. capitalize_from True (c # cs) = to_ascii_upper c # r"
  by (auto simp: ascii_letter_def to_ascii_upper_def ascii_upper_def ascii_lower_def
      sentence_end_def u_def split: list.splits)

lemma end_with_period_last:
  "s \<noteq> [] \<Longrightarrow> end_with_period s \<noteq> [] \<and> sentence_end (last (end_with_period s))"
  by (simp add: end_with_period_def sentence_end_def u_def)

lemma end_with_period_Cons: "\<exists>r. end_with_period (c # cs) = c # r"
  by (simp add: end_with_period_def)

text \<open>
  What the post-processor does guarantee. Let \<open>t\<close> be the text after the encoding
  repair and the Unicode normalization. If \<open>t\<close> is not empty, the output of
  \<open>clean_summary\<close> is not empty and ends with one of \<open>.!?\<close>. If \<open>t\<close> starts with an
  ASCII letter, the output starts with that letter in upper case.
\<close>

theorem clean_summary_ends_and_starts:
  "(nfkc E (fix_text E raw) \<noteq> [] \<longrightarrow>
      clean_summary E raw \<noteq> [] \<and> sentence_end (last (clean_summary E raw))) \<and>
   (nfkc E (fix_text E raw) = c # cs \<and> ascii_letter c \<longrightarrow>
      hd (clean_summary E raw) = to_ascii_upper c \<and> ascii_upper (hd (clean_summary E raw)))"
proof -
  let ?t0 = "nfkc E (fix_text E raw)"
  let ?t4 = "restore_contractions E (capitalize_sentences (unspace_punct (collapse_ws ?t0)))"
  have cs: "clean_summary E raw = strip (end_with_period ?t4)"
    by (simp add: clean_summary_def)
  have ends: "clean_summary E raw \<noteq> [] \<and> sentence_end (last (clean_summary E raw))"
    if ne: "?t0 \<noteq> []"
  proof -
    from ne have "?t4 \<noteq> []"
      by (simp add: restore_contractions_def capitalize_sentences_def restore_from_Nil_iff
          capitalize_from_Nil_iff unspace_punct_Nil_iff collapse_ws_Nil_iff)
    then have e: "end_with_period ?t4 \<noteq> [] \<and> sentence_end (last (end_with_period ?t4))"
      by (rule end_with_period_last)
    then have "\<not> is_space (last (end_with_period ?t4))"
      by (simp add: sentence_end_not_space)
    with e strip_keeps_last [of "end_with_period ?t4"] cs show ?thesis
      by simp
  qed
  have starts: "hd (clean_summary E raw) = to_ascii_upper c \<and> ascii_upper (hd (clean_summary E raw))"
    if t: "?t0 = c # cs" and l: "ascii_letter c"
  proof -
    from l have ns: "\<not> is_space c" by (rule ascii_letter_not_space)
    from l have up: "ascii_upper (to_ascii_upper c)"
      by (auto simp: ascii_letter_def to_ascii_upper_def ascii_upper_def ascii_lower_def)
    then have nu: "\<not> is_space (to_ascii_upper c)"
      by (auto simp: ascii_upper_def is_space_def)
    from ns t have "collapse_ws ?t0 = c # collapse_ws cs" by simp
    moreover from ns obtain r1 where "unspace_punct (c # collapse_ws cs) = c # r1"
      using unspace_punct_Cons by blast
    moreover from l obtain r2 where "capitalize_from True (c # r1) = to_ascii_upper c # r2"
      using capitalize_from_letter by blast
    moreover obtain r3 where "restore_from E None (to_ascii_upper c # r2) = to_ascii_upper c # r3"
      using restore_from_Cons by blast
    moreover obtain r4 where "end_with_period (to_ascii_upper c # r3) = to_ascii_upper c # r4"
      using end_with_period_Cons by blast
    moreover from nu obtain r5 where "strip (to_ascii_upper c # r4) = to_ascii_upper c # r5"
      using strip_keeps_head by blast
    ultimately have "clean_summary E raw = to_ascii_upper c # r5"
      by (simp add: cs restore_contractions_def capitalize_sentences_def)
    with up show ?thesis by simp
  qed
  from ends starts show ?thesis by blast
qed

theorem clean_summary_ends_and_starts_witness:
  "clean_summary demo_env (u ''stocks rose .  it s over'') = u ''Stocks rose. It's over.''"
proof -
  have n: "nfkc demo_env (fix_text demo_env (u ''stocks rose .  it s over''))
           = 115 # u ''tocks rose .  it s over''"
    by (simp add: demo_env_def u_def)
  have l: "ascii_letter 115" by (simp add: char_defs)
  have v: "clean_summary demo_env (u ''stocks rose .  it s over'') = u ''Stocks rose. It's over.''"
    by (simp add: text_defs char_defs demo_env_def)
  from clean_summary_ends_and_starts
         [of demo_env "u ''stocks rose .  it s over''" 115 "u ''tocks rose .  it s over''"]
       n l v
  show ?thesis by simp
qed

text \<open>
  C7 at a text that starts with U+00E9, a lower-case letter: the pattern of line 126
  looks for \<open>[a-z]\<close> only, so the letter is not put in upper case and the output
  starts with it, both for the text alone and for the fallback summary that
  \<open>generate_summary\<close> makes of a content of eleven words when the model raises. A
  content of fewer than 10 words goes through \<open>capitalize\<close>, which asks the Unicode
  tables for its first letter.
\<close>

theorem clean_summary_keeps_lowercase_e_acute:
  "clean_summary demo_env ([233] @ u ''cole'') = [233] @ u ''cole.'' \<and>
   fst (generate_summary demo_env
          ([233] @ u ''cole a ouvert ses portes ce matin avec deux mois de retard''))
     = [233] @ u ''cole a ouvert ses portes ce matin avec deux mois de retard...''"
  by (simp add: text_defs char_defs demo_env_def)


section \<open>The normalizer applied twice\<close>

text \<open>
  C2, as the code has it: applied to its own output, \<open>clean_text\<close> does nothing but
  apply the apostrophe pattern once more (the output is ASCII, without surrogates, with
  single spaces and trimmed, and stays so). Hence \<open>clean_text\<close> is idempotent on every
  input whose output has no match of the pattern left.
\<close>

theorem clean_text_twice:
  assumes "nfkc_ascii_fixed E"
  shows "clean_text_str E (clean_text_str E x) = restore_contractions E (clean_text_str E x) \<and>
         (restore_contractions E (clean_text_str E x) = clean_text_str E x \<longrightarrow>
            clean_text_str E (clean_text_str E x) = clean_text_str E x)"
proof -
  let ?y = "clean_text_str E x"
  let ?z = "restore_contractions E ?y"
  have ay: "list_all (\<lambda>c. c < 128) ?y"
    unfolding clean_text_str_def by (rule ascii_clean_steps)
  have y: "?y = strip (collapse_ws (sub_non_ascii (restore_contractions E (reencode_utf8 (nfkc E x)))))"
    by (simp add: clean_text_str_def clean_steps_def)
  have wy: "ws_ok ?y" unfolding y by (rule ws_ok_strip) (rule ws_ok_collapse_ws)
  have sy: "stripped ?y" unfolding y by (rule stripped_strip)
  have p: "list_all2 patched ?y ?z"
    unfolding restore_contractions_def by (rule restore_from_patched)
  from p ay have az: "list_all (\<lambda>c. c < 128) ?z" by (rule patched_ascii)
  from p wy have wz: "ws_ok ?z" by (rule patched_ws_ok)
  from p sy have sz: "stripped ?z" by (rule patched_stripped)
  from assms ay have "nfkc E ?y = ?y" by (simp add: nfkc_ascii_fixed_def)
  then have "clean_text_str E ?y = strip (collapse_ws (sub_non_ascii (restore_contractions E (reencode_utf8 ?y))))"
    by (simp add: clean_text_str_def clean_steps_def)
  also have "\<dots> = strip (collapse_ws (sub_non_ascii ?z))"
    using ay by (simp add: reencode_utf8_fixed)
  also have "\<dots> = strip (collapse_ws ?z)"
    using az by (simp add: sub_non_ascii_fixed)
  also have "\<dots> = strip ?z"
    using wz by (simp add: collapse_ws_fixed)
  also have "\<dots> = ?z"
    using sz by (rule strip_fixed)
  finally show ?thesis by simp
qed

theorem clean_text_twice_witness:
  "nfkc_ascii_fixed demo_env \<and>
   clean_text_str demo_env (u ''Trump s speech'') = u ''Trump's speech'' \<and>
   clean_text_str demo_env (clean_text_str demo_env (u ''Trump s speech'')) = u ''Trump's speech''"
proof -
  have h: "nfkc_ascii_fixed demo_env"
    by (simp add: nfkc_ascii_fixed_def demo_env_def)
  have c: "clean_text_str demo_env (u ''Trump s speech'') = u ''Trump's speech''"
    by (simp add: text_defs char_defs demo_env_def)
  have r: "restore_contractions demo_env (u ''Trump's speech'') = u ''Trump's speech''"
    by (simp add: text_defs char_defs demo_env_def)
  from clean_text_twice [OF h, of "u ''Trump s speech''"] h c r show ?thesis by simp
qed

text \<open>
  C2 as stated fails: the first pass joins \<open>a s\<close>, and only then does \<open>s t\<close> match
  (the apostrophe is a word boundary before \<open>s\<close>), so the second pass changes the text.
\<close>

theorem clean_text_not_idempotent:
  "clean_text_str demo_env (u ''a s t'') = u ''a's t'' \<and>
   clean_text_str demo_env (clean_text_str demo_env (u ''a s t'')) = u ''a's't''"
  by (simp add: text_defs char_defs demo_env_def)

section \<open>The fallback of the summarizer in the pipeline\<close>











end
